theory Spec2Isabelle
  imports Main "HOL-Library.Word"
begin

section \<open>Buffers, errors and big-endian 32-bit integers\<close>

text \<open>
  A Node \<open>Buffer\<close> is a list of bytes. JavaScript numbers that hold lengths, offsets and
  decoded unsigned 32-bit values are natural numbers. Every \<open>throw\<close> of the source, and the
  range errors raised by the \<open>Buffer\<close> accessors it calls, are values of \<open>error\<close>.
\<close>

type_synonym byte = "8 word"
type_synonym buffer = "byte list"

datatype error =
    FrameTooShort             \<comment> \<open>'Control frame length is less than 4 bytes'\<close>
  | LengthExceeded nat        \<comment> \<open>'Control frame length exceeds maximum allowed length: n'\<close>
  | InvalidType nat           \<comment> \<open>'Invalid control frame type: n'\<close>
  | InvalidField nat          \<comment> \<open>'Invalid control field type: n'\<close>
  | FieldTooLong nat          \<comment> \<open>'Control field length exceeds maximum allowed length: n'\<close>
  | FieldNotAllowed           \<comment> \<open>'CONTENT_TYPE field may not appear in STOP or FINISH control frames'\<close>
  | RangeError                \<comment> \<open>thrown by readUInt32BE / writeUInt32BE out of range\<close>
  | ExpectedAccept nat        \<comment> \<open>'Expected ACCEPT control frame, got n'\<close>
  | ContentTypesNotSupported  \<comment> \<open>'Content types not supported'\<close>
  | TimedOut                  \<comment> \<open>'Timeout while waiting for data' / 'Communication timed out'\<close>
  | SocketClosed              \<comment> \<open>'Socket closed before receiving data'\<close>
  | SocketError               \<comment> \<open>an error reported by the socket itself\<close>

text \<open>\<open>Buffer.alloc(4)\<close> followed by \<open>writeUInt32BE(v, 0)\<close>; Node throws when
  \<open>v\<close> does not fit in 32 bits.\<close>

definition writeUInt32BE :: "nat \<Rightarrow> error + buffer" where
  "writeUInt32BE v =
     (if v < 2 ^ 32
      then Inr [of_nat (v div 2 ^ 24), of_nat (v div 2 ^ 16), of_nat (v div 2 ^ 8), of_nat v]
      else Inl RangeError)"

text \<open>\<open>buf.readUInt32BE(0)\<close>; Node throws when the buffer has fewer than 4 bytes.\<close>

fun readUInt32BE :: "buffer \<Rightarrow> error + nat" where
  "readUInt32BE (a # b # c # d # rest) =
     Inr (unat a * 2 ^ 24 + unat b * 2 ^ 16 + unat c * 2 ^ 8 + unat d)"
| "readUInt32BE _ = Inl RangeError"

text \<open>\<open>buf.subarray(start, end)\<close> and \<open>buf.subarray(start)\<close>: both indices are clamped
  to the buffer, so the view may be shorter than \<open>end - start\<close>.\<close>

definition subarray :: "buffer \<Rightarrow> nat \<Rightarrow> nat \<Rightarrow> buffer" where
  "subarray buf start end = drop start (take end buf)"

definition subarray_from :: "buffer \<Rightarrow> nat \<Rightarrow> buffer" where
  "subarray_from buf start = drop start buf"

section \<open>Strings and UTF-8\<close>

text \<open>
  A JavaScript string is a sequence of UTF-16 code units. \<open>Buffer.from(s)\<close> writes its
  UTF-8 encoding, an unpaired surrogate becoming U+FFFD (bytes EF BF BD);
  \<open>Buffer.byteLength(s)\<close> is the length of that encoding; \<open>buf.toString()\<close> decodes UTF-8
  and replaces every ill-formed sequence by U+FFFD.
\<close>

type_synonym jsstring = "16 word list"

definition is_high_surrogate :: "16 word \<Rightarrow> bool" where
  "is_high_surrogate u = (0xD800 \<le> unat u \<and> unat u \<le> 0xDBFF)"

definition is_low_surrogate :: "16 word \<Rightarrow> bool" where
  "is_low_surrogate u = (0xDC00 \<le> unat u \<and> unat u \<le> 0xDFFF)"

definition utf8_of_code_point :: "nat \<Rightarrow> buffer" where
  "utf8_of_code_point c =
     (if c < 0x80 then [of_nat c]
      else if c < 0x800 then [of_nat (0xC0 + c div 64), of_nat (0x80 + c mod 64)]
      else if c < 0x10000 then
        [of_nat (0xE0 + c div 4096), of_nat (0x80 + c div 64 mod 64), of_nat (0x80 + c mod 64)]
      else
        [of_nat (0xF0 + c div 262144), of_nat (0x80 + c div 4096 mod 64),
         of_nat (0x80 + c div 64 mod 64), of_nat (0x80 + c mod 64)])"

definition replacement_bytes :: buffer where
  "replacement_bytes = [0xEF, 0xBF, 0xBD]"

fun Buffer_from :: "jsstring \<Rightarrow> buffer" where
  "Buffer_from [] = []"
| "Buffer_from [u] =
     (if is_high_surrogate u \<or> is_low_surrogate u then replacement_bytes
      else utf8_of_code_point (unat u))"
| "Buffer_from (u # v # us) =
     (if is_high_surrogate u \<and> is_low_surrogate v then
        utf8_of_code_point (0x10000 + (unat u - 0xD800) * 1024 + (unat v - 0xDC00))
          @ Buffer_from us
      else if is_high_surrogate u \<or> is_low_surrogate u then
        replacement_bytes @ Buffer_from (v # us)
      else utf8_of_code_point (unat u) @ Buffer_from (v # us))"

definition Buffer_byteLength :: "jsstring \<Rightarrow> nat" where
  "Buffer_byteLength s = length (Buffer_from s)"

text \<open>The UTF-8 decoder: \<open>cp\<close> is the code point being assembled, \<open>need\<close> the number of
  continuation bytes still expected, \<open>lo\<close> and \<open>hi\<close> the bounds for the next continuation
  byte. A byte outside the bounds ends the sequence with U+FFFD and is decoded again as the
  start of a new sequence.\<close>

function utf8_decode :: "nat \<Rightarrow> nat \<Rightarrow> nat \<Rightarrow> nat \<Rightarrow> buffer \<Rightarrow> nat list" where
  "utf8_decode cp need lo hi [] = (if need = 0 then [] else [0xFFFD])"
| "utf8_decode cp need lo hi (b # bs) =
     (if need = 0 then
        (if unat b \<le> 0x7F then unat b # utf8_decode 0 0 0x80 0xBF bs
         else if 0xC2 \<le> unat b \<and> unat b \<le> 0xDF then
           utf8_decode (unat b mod 32) 1 0x80 0xBF bs
         else if 0xE0 \<le> unat b \<and> unat b \<le> 0xEF then
           utf8_decode (unat b mod 16) 2
             (if unat b = 0xE0 then 0xA0 else 0x80) (if unat b = 0xED then 0x9F else 0xBF) bs
         else if 0xF0 \<le> unat b \<and> unat b \<le> 0xF4 then
           utf8_decode (unat b mod 8) 3
             (if unat b = 0xF0 then 0x90 else 0x80) (if unat b = 0xF4 then 0x8F else 0xBF) bs
         else 0xFFFD # utf8_decode 0 0 0x80 0xBF bs)
      else if unat b < lo \<or> hi < unat b then 0xFFFD # utf8_decode 0 0 0x80 0xBF (b # bs)
      else if need = 1 then (cp * 64 + unat b mod 64) # utf8_decode 0 0 0x80 0xBF bs
      else utf8_decode (cp * 64 + unat b mod 64) (need - 1) 0x80 0xBF bs)"
  by pat_completeness auto
termination
  by (relation "measure (\<lambda>(cp, need, lo, hi, bs). 2 * length bs + (if need = 0 then 0 else 1))")
     auto

definition utf16_of_code_point :: "nat \<Rightarrow> jsstring" where
  "utf16_of_code_point c =
     (if c < 0x10000 then [of_nat c]
      else [of_nat (0xD800 + (c - 0x10000) div 1024), of_nat (0xDC00 + (c - 0x10000) mod 1024)])"

definition Buffer_toString :: "buffer \<Rightarrow> jsstring" where
  "Buffer_toString buf = concat (map utf16_of_code_point (utf8_decode 0 0 0x80 0xBF buf))"

text \<open>An ASCII literal as a JavaScript string.\<close>

definition js :: "string \<Rightarrow> jsstring" where
  "js s = map (\<lambda>c. of_nat (of_char c)) s"

section \<open>Constants\<close>

datatype ControlFrameType = ACCEPT | START | STOP | READY | FINISH

fun ControlFrameType_value :: "ControlFrameType \<Rightarrow> nat" where
  "ControlFrameType_value ACCEPT = 0x01"
| "ControlFrameType_value START = 0x02"
| "ControlFrameType_value STOP = 0x03"
| "ControlFrameType_value READY = 0x04"
| "ControlFrameType_value FINISH = 0x05"

text \<open>The numbers among \<open>Object.values(ControlFrameType)\<close> (the other members are the
  names, which no number equals).\<close>

definition ControlFrameType_values :: "nat list" where
  "ControlFrameType_values = map ControlFrameType_value [ACCEPT, START, STOP, READY, FINISH]"

definition CONTENT_TYPE :: nat where
  "CONTENT_TYPE = 0x01"

definition ESCAPE_SEQUENCE :: buffer where
  "ESCAPE_SEQUENCE = [0, 0, 0, 0]"

definition CONTROL_FRAME_LENGTH_MAX :: nat where
  "CONTROL_FRAME_LENGTH_MAX = 512"

definition CONTROL_FIELD_CONTENT_TYPE_LENGTH_MAX :: nat where
  "CONTROL_FIELD_CONTENT_TYPE_LENGTH_MAX = 512"

section \<open>Control: encoding and decoding control frames\<close>

record DecodedControlFrame =
  type :: nat
  contentTypes :: "jsstring list option"

text \<open>The \<open>for\<close> loop of \<open>Control.encode\<close>, pushing three buffers per content type.\<close>

fun encode_fields :: "buffer list \<Rightarrow> jsstring list \<Rightarrow> error + buffer list" where
  "encode_fields buffers [] = Inr buffers"
| "encode_fields buffers (contentType # rest) =
     (case writeUInt32BE CONTENT_TYPE of
        Inl e \<Rightarrow> Inl e
      | Inr controlFieldBuffer \<Rightarrow>
          (case writeUInt32BE (Buffer_byteLength contentType) of
             Inl e \<Rightarrow> Inl e
           | Inr lengthBuffer \<Rightarrow>
               encode_fields
                 (buffers @ [controlFieldBuffer, lengthBuffer, Buffer_from contentType]) rest))"

definition Control_encode :: "ControlFrameType \<Rightarrow> jsstring list option \<Rightarrow> error + buffer" where
  "Control_encode ty cts =
     (if cts \<noteq> None \<and> (ty = STOP \<or> ty = FINISH) then Inl FieldNotAllowed
      else
        (case writeUInt32BE (ControlFrameType_value ty) of
           Inl e \<Rightarrow> Inl e
         | Inr typeBuffer \<Rightarrow>
             (case cts of
                None \<Rightarrow> Inr (concat [typeBuffer])
              | Some l \<Rightarrow>
                  (case encode_fields [typeBuffer] l of
                     Inl e \<Rightarrow> Inl e
                   | Inr buffers \<Rightarrow> Inr (concat buffers)))))"

text \<open>The \<open>while\<close> loop of \<open>Control.decode\<close> over \<open>contentTypesBuffer\<close>.\<close>

function decode_fields :: "buffer \<Rightarrow> nat \<Rightarrow> jsstring list \<Rightarrow> error + jsstring list" where
  "decode_fields contentTypesBuffer offset acc =
     (if offset < length contentTypesBuffer then
        (case readUInt32BE (subarray contentTypesBuffer offset (offset + 4)) of
           Inl e \<Rightarrow> Inl e
         | Inr fieldType \<Rightarrow>
             if fieldType \<noteq> CONTENT_TYPE then Inl (InvalidField fieldType)
             else
               (case readUInt32BE (subarray contentTypesBuffer (offset + 4) (offset + 4 + 4)) of
                  Inl e \<Rightarrow> Inl e
                | Inr len \<Rightarrow>
                    if len > CONTROL_FIELD_CONTENT_TYPE_LENGTH_MAX then Inl (FieldTooLong len)
                    else
                      decode_fields contentTypesBuffer (offset + 4 + 4 + len)
                        (acc @ [Buffer_toString
                                  (subarray contentTypesBuffer (offset + 4 + 4)
                                     (offset + 4 + 4 + len))])))
      else Inr acc)"
  by pat_completeness auto
termination
  by (relation "measure (\<lambda>(buf, offset, acc). length buf - offset)") auto

definition Control_decode :: "buffer \<Rightarrow> error + DecodedControlFrame" where
  "Control_decode buf =
     (if length buf < 4 then Inl FrameTooShort
      else if length (subarray_from buf 4) > CONTROL_FRAME_LENGTH_MAX
        then Inl (LengthExceeded (length buf))
      else
        (case readUInt32BE (subarray buf 0 4) of
           Inl e \<Rightarrow> Inl e
         | Inr controlFrameType \<Rightarrow>
             if controlFrameType \<notin> set ControlFrameType_values
               then Inl (InvalidType controlFrameType)
             else
               (case (if length (subarray_from buf 4) > 0
                      then decode_fields (subarray_from buf 4) 0 [] else Inr []) of
                  Inl e \<Rightarrow> Inl e
                | Inr cts \<Rightarrow> Inr \<lparr>type = controlFrameType, contentTypes = Some cts\<rparr>)))"

text \<open>A \<open>Control\<close> instance holds the configured content types (possibly undefined).\<close>

record Control =
  Control_contentTypes :: "jsstring list option"

definition checkContentTypes :: "Control \<Rightarrow> jsstring list \<Rightarrow> bool" where
  "checkContentTypes this contentType =
     (case Control_contentTypes this of
        None \<Rightarrow> False
      | Some cts \<Rightarrow> list_ex (\<lambda>ct. ct \<in> set contentType) cts)"

section \<open>Encoder: the framing of data frames\<close>

text \<open>The class \<open>Encoder\<close> that \<open>SocketWriter\<close> uses: a frame is its 4-byte length
  followed by its bytes.\<close>

record DecodedFrame =
  frame_size :: nat
  payload :: buffer

definition Encoder_encode :: "buffer \<Rightarrow> error + buffer" where
  "Encoder_encode buf =
     (case writeUInt32BE (length buf) of
        Inl e \<Rightarrow> Inl e
      | Inr lenBuf \<Rightarrow> Inr (concat [lenBuf, buf]))"

definition Encoder_decode :: "buffer \<Rightarrow> error + DecodedFrame" where
  "Encoder_decode buf =
     (case readUInt32BE buf of
        Inl e \<Rightarrow> Inl e
      | Inr sz \<Rightarrow> Inr \<lparr>frame_size = sz, payload = subarray_from buf 4\<rparr>)"

section \<open>The socket\<close>

text \<open>
  What the code does to a socket is \<open>socket.write\<close>: the socket is the list of chunks
  passed to \<open>socket.write\<close> so far, in order, and the error (if any) that it reports
  to a write callback.
\<close>

record Socket =
  written :: "buffer list"
  write_error :: "error option"

definition socket_write :: "Socket \<Rightarrow> buffer \<Rightarrow> Socket" where
  "socket_write sock chunk = sock\<lparr>written := written sock @ [chunk]\<rparr>"

section \<open>The socket encoder and \<open>Writer.init\<close>\<close>

text \<open>
  The class \<open>Encoder\<close> that \<open>Writer\<close> uses. \<open>sendControlFrame\<close> builds the control
  frame as \<open>Control.encode\<close> does and then writes three chunks: the escape sequence, the
  length of the frame, the frame. It returns with the socket as it has left it, also when
  it throws.
\<close>

definition sendControlFrame ::
    "Socket \<Rightarrow> ControlFrameType \<Rightarrow> jsstring list option \<Rightarrow> (error + unit) \<times> Socket" where
  "sendControlFrame sock ty cts =
     (if cts \<noteq> None \<and> (ty = STOP \<or> ty = FINISH) then (Inl FieldNotAllowed, sock)
      else
        (case writeUInt32BE (ControlFrameType_value ty) of
           Inl e \<Rightarrow> (Inl e, sock)
         | Inr typeBuffer \<Rightarrow>
             (case (case cts of None \<Rightarrow> Inr [typeBuffer]
                              | Some l \<Rightarrow> encode_fields [typeBuffer] l) of
                Inl e \<Rightarrow> (Inl e, sock)
              | Inr buffers \<Rightarrow>
                  (let sock1 = socket_write sock ESCAPE_SEQUENCE;
                       finalBuffer = concat buffers
                   in case writeUInt32BE (length finalBuffer) of
                        Inl e \<Rightarrow> (Inl e, sock1)
                      | Inr lengthBuffer \<Rightarrow>
                          (Inr (), socket_write (socket_write sock1 lengthBuffer) finalBuffer)))))"

definition bufferToControlFrameType :: "buffer \<Rightarrow> error + nat" where
  "bufferToControlFrameType buf = readUInt32BE buf"

record Writer =
  Writer_bidirectional :: bool
  Writer_contentTypes :: "jsstring list option"

text \<open>\<open>Writer.init\<close>; \<open>recv_result\<close> is how \<open>encoder.recv(socket, 5000)\<close>
  settles: the chunk received, or the error it rejects with.\<close>

definition Writer_init :: "Writer \<Rightarrow> Socket \<Rightarrow> error + buffer \<Rightarrow> (error + unit) \<times> Socket" where
  "Writer_init this sock recv_result =
     (if Writer_bidirectional this then
        (case sendControlFrame sock READY (Writer_contentTypes this) of
           (Inl e, sock1) \<Rightarrow> (Inl e, sock1)
         | (Inr u, sock1) \<Rightarrow>
             (case recv_result of
                Inl e \<Rightarrow> (Inl e, sock1)
              | Inr resp \<Rightarrow>
                  (case bufferToControlFrameType resp of
                     Inl e \<Rightarrow> (Inl e, sock1)
                   | Inr respType \<Rightarrow>
                       if respType \<noteq> ControlFrameType_value ACCEPT
                       then (Inl (ExpectedAccept respType), sock1)
                       else sendControlFrame sock1 START (Writer_contentTypes this))))
      else sendControlFrame sock START (Writer_contentTypes this))"

section \<open>\<open>SocketWriter\<close> and its handshake\<close>

record SocketWriter =
  SocketWriter_timeout :: "nat option"
  SocketWriter_bidirectional :: bool
  SocketWriter_contentTypes :: "jsstring list option"
  SocketWriter_control :: Control

text \<open>The instance method \<open>control.encode(type)\<close>.\<close>

definition Control_encode_with :: "Control \<Rightarrow> ControlFrameType \<Rightarrow> error + buffer" where
  "Control_encode_with this ty = Control_encode ty (Control_contentTypes this)"

text \<open>\<open>SocketWriter.writeFrame\<close>: the promise is rejected with the error that the socket
  passes to the write callback, if any.\<close>

definition writeFrame :: "Socket \<Rightarrow> buffer \<Rightarrow> (error + unit) \<times> Socket" where
  "writeFrame sock frame =
     (case Encoder_encode frame of
        Inl e \<Rightarrow> (Inl e, sock)
      | Inr chunk \<Rightarrow>
          (case write_error sock of
             Some err \<Rightarrow> (Inl err, socket_write sock chunk)
           | None \<Rightarrow> (Inr (), socket_write sock chunk)))"

text \<open>\<open>SocketWriter.handshake\<close>; \<open>recv_result\<close> is how \<open>this.recv(5000)\<close> settles.\<close>

definition handshake ::
    "SocketWriter \<Rightarrow> Socket \<Rightarrow> error + buffer \<Rightarrow> (error + unit) \<times> Socket" where
  "handshake this sock recv_result =
     (case Control_encode_with (SocketWriter_control this) READY of
        Inl e \<Rightarrow> (Inl e, sock)
      | Inr ready \<Rightarrow>
          (case writeFrame sock ready of
             (Inl e, sock1) \<Rightarrow> (Inl e, sock1)
           | (Inr u, sock1) \<Rightarrow>
               (case recv_result of
                  Inl e \<Rightarrow> (Inl e, sock1)
                | Inr acceptFrame \<Rightarrow>
                    (case Control_decode acceptFrame of
                       Inl e \<Rightarrow> (Inl e, sock1)
                     | Inr decoded \<Rightarrow>
                         if type decoded \<noteq> ControlFrameType_value ACCEPT
                         then (Inl (ExpectedAccept (type decoded)), sock1)
                         else
                           (case contentTypes decoded of
                              None \<Rightarrow> (Inr (), sock1)
                            | Some cts \<Rightarrow>
                                if \<not> checkContentTypes (SocketWriter_control this) cts
                                then (Inl ContentTypesNotSupported, sock1)
                                else (Inr (), sock1))))))"

section \<open>Pending reads: listeners, timers and the promise\<close>

text \<open>
  A \<open>recv\<close> call creates a promise, registers listeners on the socket and possibly a
  timer. The state of a pending read is the listeners it has registered (event and
  callback, in registration order), its pending timers (the delay passed to
  \<open>setTimeout\<close>, \<open>None\<close> when no delay is passed, and the callback) and the promise.
  A promise settles at most once: \<open>resolve\<close> and \<open>reject\<close> on a settled promise do
  nothing.
\<close>

datatype event = Ev_data | Ev_error | Ev_close

datatype callback =
    onData | onError | onClose | onTimeout    \<comment> \<open>the closures of \<open>Encoder.recv\<close>\<close>
  | sw_onData | sw_onTimeout                  \<comment> \<open>the closures of \<open>SocketWriter.recv\<close>\<close>

datatype promise = Pending | Resolved buffer | Rejected error

record pending_read =
  listeners :: "(event \<times> callback) list"
  timers :: "(nat option \<times> callback) list"
  settled :: promise

definition socket_once :: "event \<Rightarrow> callback \<Rightarrow> pending_read \<Rightarrow> pending_read" where
  "socket_once ev cb st = st\<lparr>listeners := listeners st @ [(ev, cb)]\<rparr>"

definition socket_off :: "event \<Rightarrow> callback \<Rightarrow> pending_read \<Rightarrow> pending_read" where
  "socket_off ev cb st = st\<lparr>listeners := remove1 (ev, cb) (listeners st)\<rparr>"

definition setTimeout :: "callback \<Rightarrow> nat option \<Rightarrow> pending_read \<Rightarrow> pending_read" where
  "setTimeout cb delay st = st\<lparr>timers := timers st @ [(delay, cb)]\<rparr>"

definition resolve :: "buffer \<Rightarrow> pending_read \<Rightarrow> pending_read" where
  "resolve v st = (if settled st = Pending then st\<lparr>settled := Resolved v\<rparr> else st)"

definition reject :: "error \<Rightarrow> pending_read \<Rightarrow> pending_read" where
  "reject e st = (if settled st = Pending then st\<lparr>settled := Rejected e\<rparr> else st)"

definition cleanup :: "pending_read \<Rightarrow> pending_read" where
  "cleanup st = socket_off Ev_close onClose (socket_off Ev_error onError (socket_off Ev_data onData st))"

text \<open>What the environment can make happen, and the argument a callback then receives.\<close>

datatype occurrence = Data buffer | Error error | Close | Timer_fires

fun run_callback :: "callback \<Rightarrow> occurrence \<Rightarrow> pending_read \<Rightarrow> pending_read" where
  "run_callback onData (Data d) st = resolve d (cleanup st)"
| "run_callback onError (Error err) st = reject err (cleanup st)"
| "run_callback onClose _ st = reject SocketClosed (cleanup st)"
| "run_callback onTimeout _ st = reject TimedOut (cleanup st)"
| "run_callback sw_onData (Data d) st = resolve d st"
| "run_callback sw_onTimeout _ st = reject TimedOut st"
| "run_callback _ _ st = st"

fun event_of :: "occurrence \<Rightarrow> event option" where
  "event_of (Data d) = Some Ev_data"
| "event_of (Error e) = Some Ev_error"
| "event_of Close = Some Ev_close"
| "event_of Timer_fires = None"

text \<open>
  An emitted event calls the listeners registered for it, each registered with \<open>once\<close>
  and so removed before it is called. A timer that fires is removed from the pending
  timers and its callback is called.
\<close>

fun fire :: "occurrence \<Rightarrow> pending_read \<Rightarrow> pending_read" where
  "fire Timer_fires st =
     (case timers st of
        [] \<Rightarrow> st
      | (delay, cb) # rest \<Rightarrow> run_callback cb Timer_fires (st\<lparr>timers := rest\<rparr>))"
| "fire occ st =
     (let called = filter (\<lambda>(ev, cb). Some ev = event_of occ) (listeners st);
          st1 = st\<lparr>listeners := filter (\<lambda>(ev, cb). Some ev \<noteq> event_of occ) (listeners st)\<rparr>
      in foldl (\<lambda>s (ev, cb). run_callback cb occ s) st1 called)"

definition no_pending_read :: pending_read where
  "no_pending_read = \<lparr>listeners = [], timers = [], settled = Pending\<rparr>"

text \<open>\<open>Encoder.recv(socket, timeout)\<close>: the state when the executor has run.
  \<open>if (timeout)\<close> is false for \<open>undefined\<close> and for 0.\<close>

definition Encoder_recv :: "nat option \<Rightarrow> pending_read" where
  "Encoder_recv timeout =
     (let st = socket_once Ev_close onClose
                 (socket_once Ev_error onError (socket_once Ev_data onData no_pending_read))
      in if timeout \<noteq> None \<and> timeout \<noteq> Some 0 then setTimeout onTimeout timeout st else st)"

text \<open>\<open>SocketWriter.recv(timeout)\<close>: \<open>setTimeout\<close> is called without a delay.\<close>

definition SocketWriter_recv :: "nat option \<Rightarrow> pending_read" where
  "SocketWriter_recv timeout =
     (let st = (if timeout \<noteq> None then setTimeout sw_onTimeout None no_pending_read
                else no_pending_read)
      in socket_once Ev_data sw_onData st)"

section \<open>Notions used to state the properties\<close>

text \<open>
  A Unicode scalar value is a code point that is not a surrogate. A JavaScript string is
  well formed when every surrogate in it is part of a pair, a high surrogate followed by
  a low one; these are the strings that UTF-8 can represent.
\<close>

definition scalar_value :: "nat \<Rightarrow> bool" where
  "scalar_value c = (c < 0x110000 \<and> \<not> (0xD800 \<le> c \<and> c \<le> 0xDFFF))"

fun well_formed :: "jsstring \<Rightarrow> bool" where
  "well_formed [] = True"
| "well_formed [u] = (\<not> is_high_surrogate u \<and> \<not> is_low_surrogate u)"
| "well_formed (u # v # us) =
     (if is_high_surrogate u \<and> is_low_surrogate v then well_formed us
      else \<not> is_high_surrogate u \<and> \<not> is_low_surrogate u \<and> well_formed (v # us))"

text \<open>
  The four bytes of a number in big-endian order, and the bytes of one content-type field
  on the wire: the field type, the length of the value, the value.
\<close>

definition be32 :: "nat \<Rightarrow> buffer" where
  "be32 v = [of_nat (v div 2 ^ 24), of_nat (v div 2 ^ 16), of_nat (v div 2 ^ 8), of_nat v]"

definition field :: "buffer \<Rightarrow> buffer" where
  "field p = be32 CONTENT_TYPE @ be32 (length p) @ p"

text \<open>
  The number of bytes that the fields of a list of content types take in a control frame:
  for each string two 4-byte headers and its UTF-8 bytes.
\<close>

definition fields_length :: "jsstring list \<Rightarrow> nat" where
  "fields_length cts = sum_list (map (\<lambda>ct. 4 + 4 + Buffer_byteLength ct) cts)"

text \<open>The composition \<open>Control.decode(Control.encode(type, contentTypes))\<close>.\<close>

definition decode_encode ::
    "ControlFrameType \<Rightarrow> jsstring list option \<Rightarrow> error + DecodedControlFrame" where
  "decode_encode ty cts =
     (case Control_encode ty cts of Inl e \<Rightarrow> Inl e | Inr buf \<Rightarrow> Control_decode buf)"

section \<open>Evaluation setup\<close>

text \<open>The two loops defined by general recursion are unfolded only on request.\<close>

declare utf8_decode.simps [simp del]
declare decode_fields.simps [simp del]

lemmas codec_defs =
  Control_encode_def writeUInt32BE_def CONTENT_TYPE_def Buffer_byteLength_def js_def
  is_high_surrogate_def is_low_surrogate_def utf8_of_code_point_def replacement_bytes_def
  Control_decode_def subarray_def subarray_from_def CONTROL_FRAME_LENGTH_MAX_def
  ControlFrameType_values_def CONTROL_FIELD_CONTENT_TYPE_LENGTH_MAX_def Buffer_toString_def
  utf16_of_code_point_def decode_fields.simps utf8_decode.simps

section \<open>Content-type negotiation\<close>

text \<open>
  Claim C6. For every configured set and every candidate list, \<open>checkContentTypes\<close>
  returns true if and only if the configured set is present, is not empty and shares at
  least one string with the candidate list (strings compared code unit by code unit); in
  particular it returns false whenever the configured set is unset or empty, whatever
  the candidate.
\<close>

theorem checkContentTypes_iff_shared:
  "(checkContentTypes this candidate \<longleftrightarrow>
      (\<exists>cts. Control_contentTypes this = Some cts \<and> cts \<noteq> [] \<and>
             set cts \<inter> set candidate \<noteq> {})) \<and>
   (Control_contentTypes this = None \<or> Control_contentTypes this = Some [] \<longrightarrow>
      \<not> checkContentTypes this candidate)"
  by (auto simp: checkContentTypes_def list_ex_iff split: option.splits)

theorem checkContentTypes_iff_shared_witness:
  "checkContentTypes \<lparr>Control_contentTypes = Some [js ''application/json'']\<rparr>
     [js ''text/plain'', js ''application/json''] \<and>
   \<not> checkContentTypes \<lparr>Control_contentTypes = Some [js ''application/json'']\<rparr>
     [js ''text/plain''] \<and>
   \<not> checkContentTypes \<lparr>Control_contentTypes = None\<rparr> [js ''application/json''] \<and>
   \<not> checkContentTypes \<lparr>Control_contentTypes = Some []\<rparr> [js ''application/json'']"
  using checkContentTypes_iff_shared
          [of "\<lparr>Control_contentTypes = Some [js ''application/json'']\<rparr>"
              "[js ''text/plain'', js ''application/json'']"]
        checkContentTypes_iff_shared
          [of "\<lparr>Control_contentTypes = Some [js ''application/json'']\<rparr>"
              "[js ''text/plain'']"]
        checkContentTypes_iff_shared
          [of "\<lparr>Control_contentTypes = None\<rparr>" "[js ''application/json'']"]
        checkContentTypes_iff_shared
          [of "\<lparr>Control_contentTypes = Some []\<rparr>" "[js ''application/json'']"]
  by (simp add: js_def)

section \<open>STOP and FINISH carry no content types\<close>

text \<open>
  Claim C7. For every non-empty array of content-type strings, \<open>encode(STOP, array)\<close>
  and \<open>encode(FINISH, array)\<close> fail with the field-not-allowed error; the result is the
  error and no buffer.
\<close>

theorem encode_STOP_FINISH_nonempty_fails:
  "cts \<noteq> [] \<Longrightarrow>
     Control_encode STOP (Some cts) = Inl FieldNotAllowed \<and>
     Control_encode FINISH (Some cts) = Inl FieldNotAllowed"
  by (simp add: Control_encode_def)

theorem encode_STOP_FINISH_nonempty_fails_witness:
  "[js ''application/json''] \<noteq> [] \<and>
   Control_encode STOP (Some [js ''application/json'']) = Inl FieldNotAllowed \<and>
   Control_encode FINISH (Some [js ''application/json'']) = Inl FieldNotAllowed"
  using encode_STOP_FINISH_nonempty_fails [of "[js ''application/json'']"] by simp

text \<open>
  Claim C10. \<open>encode(STOP, [])\<close> and \<open>encode(FINISH, [])\<close>, with an empty but present
  array, fail with the same field-not-allowed error, as does any provided array; so does
  \<open>sendControlFrame\<close>, before anything is written to the socket.
\<close>

theorem encode_STOP_FINISH_any_array_fails:
  "Control_encode STOP (Some []) = Inl FieldNotAllowed \<and>
   Control_encode FINISH (Some []) = Inl FieldNotAllowed \<and>
   Control_encode STOP (Some cts) = Inl FieldNotAllowed \<and>
   Control_encode FINISH (Some cts) = Inl FieldNotAllowed \<and>
   sendControlFrame sock STOP (Some cts) = (Inl FieldNotAllowed, sock) \<and>
   sendControlFrame sock FINISH (Some cts) = (Inl FieldNotAllowed, sock)"
  by (simp add: Control_encode_def sendControlFrame_def)

section \<open>The START frame for one content type\<close>

text \<open>
  Claim C5, as stated: \<open>encode(START, ["application/dns-tap"])\<close> is 32 bytes, with
  length field 00 00 00 14 and 20 bytes of text. The string has 19 characters: the
  encoding is 31 bytes long and its length field is 00 00 00 13.
\<close>

theorem encode_START_dnstap_not_32_bytes:
  "Control_encode START (Some [js ''application/dns-tap'']) =
     Inr [0, 0, 0, 2, 0, 0, 0, 1, 0, 0, 0, 0x13,
          97, 112, 112, 108, 105, 99, 97, 116, 105, 111, 110, 47, 100, 110, 115, 45, 116, 97, 112] \<and>
   length [0, 0, 0, 2, 0, 0, 0, 1, 0, 0, 0, 0x13 :: byte,
          97, 112, 112, 108, 105, 99, 97, 116, 105, 111, 110, 47, 100, 110, 115, 45, 116, 97, 112]
     \<noteq> 32 \<and>
   [0, 0, 0, 0x13 :: byte] \<noteq> [0, 0, 0, 0x14] \<and>
   length (js ''application/dns-tap'') \<noteq> 20"
  by (simp add: codec_defs)

text \<open>
  Claim C5, amended: \<open>encode(START, ["application/dns-tap"])\<close> produces exactly the bytes
  00 00 00 02, then 00 00 00 01, then 00 00 00 13, then the 19 ASCII bytes of the string,
  31 bytes in total, and decoding that buffer returns the type START and the content types
  \<open>["application/dns-tap"]\<close>.
\<close>

theorem encode_START_dnstap_bytes:
  "Control_encode START (Some [js ''application/dns-tap'']) =
     Inr ([0, 0, 0, 2] @ [0, 0, 0, 1] @ [0, 0, 0, 0x13] @
          map (\<lambda>c. of_nat (of_char c)) ''application/dns-tap'') \<and>
   length ([0, 0, 0, 2] @ [0, 0, 0, 1] @ [0, 0, 0, 0x13 :: byte] @
          map (\<lambda>c. of_nat (of_char c)) ''application/dns-tap'') = 31 \<and>
   Control_decode ([0, 0, 0, 2] @ [0, 0, 0, 1] @ [0, 0, 0, 0x13] @
          map (\<lambda>c. of_nat (of_char c)) ''application/dns-tap'') =
     Inr \<lparr>type = ControlFrameType_value START,
          contentTypes = Some [js ''application/dns-tap'']\<rparr>"
  by (simp add: codec_defs)

section \<open>Division and remainder by a constant\<close>

lemma mod_add_mult: "a < m \<Longrightarrow> (k * m + a) mod m = (a::nat)"
  by simp
lemma div_add_mult: "a < m \<Longrightarrow> (k * m + a) div m = (k::nat)"
  by simp

lemma div_lt: "c < k * m \<Longrightarrow> c div m < (k::nat)"
  by (rule less_mult_imp_div_less)

lemma div_ge: "k * m \<le> c \<Longrightarrow> 0 < m \<Longrightarrow> (k::nat) \<le> c div m"
  using div_le_mono[of "k * m" c m] by simp

section \<open>Decoding the UTF-8 encoding of a code point\<close>

lemma unat_byte: "n < 256 \<Longrightarrow> unat (of_nat n :: 8 word) = n"
  by (simp add: unat_of_nat)

lemma decode_start_ascii:
  "unat b \<le> 0x7F \<Longrightarrow> utf8_decode cp 0 lo hi (b # bs) = unat b # utf8_decode 0 0 0x80 0xBF bs"
  by (subst utf8_decode.simps) simp

lemma decode_start_2:
  "unat x = 0xC0 + a \<Longrightarrow> 2 \<le> a \<Longrightarrow> a < 32 \<Longrightarrow>
     utf8_decode cp 0 lo hi (x # bs) = utf8_decode a 1 0x80 0xBF bs"
  using mod_add_mult[of a 32 6] by (subst utf8_decode.simps) simp

lemma decode_start_3:
  "unat x = 0xE0 + a \<Longrightarrow> a < 16 \<Longrightarrow>
     utf8_decode cp 0 lo hi (x # bs) =
       utf8_decode a 2 (if a = 0 then 0xA0 else 0x80) (if a = 13 then 0x9F else 0xBF) bs"
  using mod_add_mult[of a 16 14] by (subst utf8_decode.simps) simp

lemma decode_start_4:
  "unat x = 0xF0 + a \<Longrightarrow> a < 5 \<Longrightarrow>
     utf8_decode cp 0 lo hi (x # bs) =
       utf8_decode a 3 (if a = 0 then 0x90 else 0x80) (if a = 4 then 0x8F else 0xBF) bs"
  using mod_add_mult[of a 8 30] by (subst utf8_decode.simps) simp

lemma decode_continue:
  "unat y = 0x80 + b \<Longrightarrow> b < 64 \<Longrightarrow> 0 < need \<Longrightarrow> lo \<le> 0x80 + b \<Longrightarrow> 0x80 + b \<le> hi \<Longrightarrow>
     utf8_decode cp need lo hi (y # bs) =
       (if need = 1 then (cp * 64 + b) # utf8_decode 0 0 0x80 0xBF bs
        else utf8_decode (cp * 64 + b) (need - 1) 0x80 0xBF bs)"
  using mod_add_mult[of b 64 2] by (subst utf8_decode.simps) simp

lemma decode_bytes_2:
  assumes "unat x = 0xC0 + a" "unat y = 0x80 + b" "2 \<le> a" "a < 32" "b < 64"
  shows "utf8_decode 0 0 0x80 0xBF (x # y # rest) = (a * 64 + b) # utf8_decode 0 0 0x80 0xBF rest"
  using assms by (simp add: decode_start_2[where a = a] decode_continue[where b = b])

lemma decode_bytes_3:
  assumes "unat x = 0xE0 + a" "unat y = 0x80 + b" "unat z = 0x80 + d"
    "a < 16" "b < 64" "d < 64" "a = 0 \<longrightarrow> 32 \<le> b" "a = 13 \<longrightarrow> b < 32"
  shows "utf8_decode 0 0 0x80 0xBF (x # y # z # rest) =
           ((a * 64 + b) * 64 + d) # utf8_decode 0 0 0x80 0xBF rest"
proof -
  have "utf8_decode 0 0 0x80 0xBF (x # y # z # rest) =
        utf8_decode a 2 (if a = 0 then 0xA0 else 0x80) (if a = 13 then 0x9F else 0xBF) (y # z # rest)"
    using assms by (simp add: decode_start_3[where a = a])
  also have "\<dots> = utf8_decode (a * 64 + b) 1 0x80 0xBF (z # rest)"
    using assms by (subst decode_continue[where b = b]) auto
  also have "\<dots> = ((a * 64 + b) * 64 + d) # utf8_decode 0 0 0x80 0xBF rest"
    using assms by (subst decode_continue[where b = d]) auto
  finally show ?thesis .
qed

lemma decode_bytes_4:
  assumes "unat x = 0xF0 + a" "unat y = 0x80 + b" "unat z = 0x80 + d" "unat w = 0x80 + e"
    "a < 5" "b < 64" "d < 64" "e < 64" "a = 0 \<longrightarrow> 16 \<le> b" "a = 4 \<longrightarrow> b < 16"
  shows "utf8_decode 0 0 0x80 0xBF (x # y # z # w # rest) =
           (((a * 64 + b) * 64 + d) * 64 + e) # utf8_decode 0 0 0x80 0xBF rest"
proof -
  have "utf8_decode 0 0 0x80 0xBF (x # y # z # w # rest) =
        utf8_decode a 3 (if a = 0 then 0x90 else 0x80) (if a = 4 then 0x8F else 0xBF) (y # z # w # rest)"
    using assms by (simp add: decode_start_4[where a = a])
  also have "\<dots> = utf8_decode (a * 64 + b) 2 0x80 0xBF (z # w # rest)"
    using assms by (subst decode_continue[where b = b]) auto
  also have "\<dots> = utf8_decode ((a * 64 + b) * 64 + d) 1 0x80 0xBF (w # rest)"
    using assms by (subst decode_continue[where b = d]) auto
  also have "\<dots> = (((a * 64 + b) * 64 + d) * 64 + e) # utf8_decode 0 0 0x80 0xBF rest"
    using assms by (subst decode_continue[where b = e]) auto
  finally show ?thesis .
qed

lemma decode_code_point_1:
  assumes "c < 0x80"
  shows "utf8_decode 0 0 0x80 0xBF (utf8_of_code_point c @ rest) = c # utf8_decode 0 0 0x80 0xBF rest"
proof -
  have u: "unat (of_nat c :: 8 word) = c" using assms by (intro unat_byte) simp
  have "utf8_decode 0 0 0x80 0xBF (of_nat c # rest) = unat (of_nat c :: 8 word) # utf8_decode 0 0 0x80 0xBF rest"
    using assms u by (intro decode_start_ascii) simp
  then show ?thesis using assms by (simp only: u utf8_of_code_point_def if_True append_Cons append_Nil)
qed

lemma decode_code_point_2:
  assumes "0x80 \<le> c" "c < 0x800"
  shows "utf8_decode 0 0 0x80 0xBF (utf8_of_code_point c @ rest) = c # utf8_decode 0 0 0x80 0xBF rest"
proof -
  define a where "a = c div 64"
  define b where "b = c mod 64"
  have c: "a * 64 + b = c" by (simp add: a_def b_def)
  have a: "2 \<le> a" "a < 32" unfolding a_def using assms by (auto intro!: div_lt div_ge)
  have b: "b < 64" by (simp add: b_def)
  have x: "unat (of_nat (0xC0 + a) :: 8 word) = 0xC0 + a" using a by (intro unat_byte) simp
  have y: "unat (of_nat (0x80 + b) :: 8 word) = 0x80 + b" using b by (intro unat_byte) simp
  have "utf8_of_code_point c = [of_nat (0xC0 + a), of_nat (0x80 + b)]"
    unfolding utf8_of_code_point_def a_def b_def using assms by simp
  then show ?thesis using decode_bytes_2[OF x y a b, of rest] c by simp
qed

lemma decode_code_point_3:
  assumes "0x800 \<le> c" "c < 0x10000" "\<not> (0xD800 \<le> c \<and> c \<le> 0xDFFF)"
  shows "utf8_decode 0 0 0x80 0xBF (utf8_of_code_point c @ rest) = c # utf8_decode 0 0 0x80 0xBF rest"
proof -
  define q where "q = c div 64"
  define a where "a = q div 64"
  define b where "b = q mod 64"
  define d where "d = c mod 64"
  have a4096: "c div 4096 = a" by (simp add: a_def q_def div_mult2_eq[symmetric])
  have q: "a * 64 + b = q" by (simp add: a_def b_def)
  have c: "q * 64 + d = c" by (simp add: q_def d_def)
  have qb: "32 \<le> q" "q < 1024" unfolding q_def using assms by (auto intro!: div_lt div_ge)
  have qs: "q < 864 \<or> 896 \<le> q"
  proof (cases "c < 0xD800")
    case True then have "q < 864" unfolding q_def by (intro div_lt) simp
    then show ?thesis by simp
  next
    case False with assms have "0xE000 \<le> c" by simp
    then have "896 \<le> q" unfolding q_def by (intro div_ge) simp_all
    then show ?thesis by simp
  qed
  have a: "a < 16" unfolding a_def using qb by (intro div_lt) simp
  have b: "b < 64" "d < 64" by (simp_all add: b_def d_def)
  have lo: "a = 0 \<longrightarrow> 32 \<le> b" using q qb by auto
  have hi: "a = 13 \<longrightarrow> b < 32" using q qs b by auto
  have x: "unat (of_nat (0xE0 + a) :: 8 word) = 0xE0 + a" using a by (intro unat_byte) simp
  have y: "unat (of_nat (0x80 + b) :: 8 word) = 0x80 + b" using b by (intro unat_byte) simp
  have z: "unat (of_nat (0x80 + d) :: 8 word) = 0x80 + d" using b by (intro unat_byte) simp
  have "utf8_of_code_point c = [of_nat (0xE0 + a), of_nat (0x80 + b), of_nat (0x80 + d)]"
    unfolding utf8_of_code_point_def a4096 using assms by (simp add: b_def d_def q_def)
  then show ?thesis using decode_bytes_3[OF x y z a b lo hi, of rest] c q by simp
qed

lemma decode_code_point_4:
  assumes "0x10000 \<le> c" "c < 0x110000"
  shows "utf8_decode 0 0 0x80 0xBF (utf8_of_code_point c @ rest) = c # utf8_decode 0 0 0x80 0xBF rest"
proof -
  define q where "q = c div 64"
  define r where "r = q div 64"
  define a where "a = r div 64"
  define b where "b = r mod 64"
  define d where "d = q mod 64"
  define e where "e = c mod 64"
  have r4096: "c div 4096 = r" by (simp add: r_def q_def div_mult2_eq[symmetric])
  have a262144: "c div 262144 = a" by (simp add: a_def r_def q_def div_mult2_eq[symmetric])
  have r: "a * 64 + b = r" by (simp add: a_def b_def)
  have q: "r * 64 + d = q" by (simp add: r_def d_def)
  have c: "q * 64 + e = c" by (simp add: q_def e_def)
  have rb: "16 \<le> r" "r < 272" unfolding r4096[symmetric] using assms by (auto intro!: div_lt div_ge)
  have a: "a < 5" unfolding a_def using rb by (intro div_lt) simp
  have b: "b < 64" "d < 64" "e < 64" by (simp_all add: b_def d_def e_def)
  have lo: "a = 0 \<longrightarrow> 16 \<le> b" using r rb by auto
  have hi: "a = 4 \<longrightarrow> b < 16" using r rb by auto
  have x: "unat (of_nat (0xF0 + a) :: 8 word) = 0xF0 + a" using a by (intro unat_byte) simp
  have y: "unat (of_nat (0x80 + b) :: 8 word) = 0x80 + b" using b by (intro unat_byte) simp
  have z: "unat (of_nat (0x80 + d) :: 8 word) = 0x80 + d" using b by (intro unat_byte) simp
  have w: "unat (of_nat (0x80 + e) :: 8 word) = 0x80 + e" using b by (intro unat_byte) simp
  have "utf8_of_code_point c =
          [of_nat (0xF0 + a), of_nat (0x80 + b), of_nat (0x80 + d), of_nat (0x80 + e)]"
    unfolding utf8_of_code_point_def a262144 r4096 using assms by (simp add: b_def d_def e_def q_def)
  then show ?thesis using decode_bytes_4[OF x y z w a b lo hi, of rest] c q r by simp
qed

lemma decode_code_point:
  "scalar_value c \<Longrightarrow>
     utf8_decode 0 0 0x80 0xBF (utf8_of_code_point c @ rest) = c # utf8_decode 0 0 0x80 0xBF rest"
  unfolding scalar_value_def
  using decode_code_point_1[of c rest] decode_code_point_2[of c rest]
        decode_code_point_3[of c rest] decode_code_point_4[of c rest]
  by (cases "c < 0x80"; cases "c < 0x800"; cases "c < 0x10000") simp_all

section \<open>Well-formed strings survive \<open>Buffer.from\<close> and \<open>toString\<close>\<close>

lemma toString_code_point:
  "scalar_value c \<Longrightarrow>
     Buffer_toString (utf8_of_code_point c @ rest) = utf16_of_code_point c @ Buffer_toString rest"
  by (simp add: Buffer_toString_def decode_code_point)

lemma unat_unit_less: "unat (u :: 16 word) < 0x10000"
  using unsigned_less[of u, where ?'a = nat] by simp

lemma utf16_of_unit: "utf16_of_code_point (unat (u :: 16 word)) = [u]"
  using unat_unit_less[of u] by (simp add: utf16_of_code_point_def)

lemma scalar_unit:
  "\<not> is_high_surrogate u \<Longrightarrow> \<not> is_low_surrogate u \<Longrightarrow> scalar_value (unat u)"
  using unat_unit_less[of u]
  by (auto simp: scalar_value_def is_high_surrogate_def is_low_surrogate_def)

lemma pair_code_point:
  assumes "is_high_surrogate u" "is_low_surrogate v"
  shows "scalar_value (0x10000 + (unat u - 0xD800) * 1024 + (unat v - 0xDC00))"
    and "utf16_of_code_point (0x10000 + (unat u - 0xD800) * 1024 + (unat v - 0xDC00)) = [u, v]"
proof -
  define h where "h = unat u - 0xD800"
  define l where "l = unat v - 0xDC00"
  have h: "h < 1024" "0xD800 + h = unat u"
    using assms by (auto simp: h_def is_high_surrogate_def)
  have l: "l < 1024" "0xDC00 + l = unat v"
    using assms by (auto simp: l_def is_low_surrogate_def)
  have hl: "h * 1024 + l < 0x100000" using h l by simp
  show "scalar_value (0x10000 + (unat u - 0xD800) * 1024 + (unat v - 0xDC00))"
    using hl by (simp add: scalar_value_def h_def[symmetric] l_def[symmetric])
  have "utf16_of_code_point (0x10000 + h * 1024 + l) =
          [of_nat (0xD800 + (h * 1024 + l) div 1024), of_nat (0xDC00 + (h * 1024 + l) mod 1024)]"
    by (simp add: utf16_of_code_point_def)
  also have "\<dots> = [of_nat (0xD800 + h), of_nat (0xDC00 + l)]"
    using l by (simp only: div_add_mult mod_add_mult)
  also have "\<dots> = [u, v]"
    by (simp only: h l) simp
  finally show "utf16_of_code_point (0x10000 + (unat u - 0xD800) * 1024 + (unat v - 0xDC00)) = [u, v]"
    by (simp only: h_def l_def)
qed

lemma toString_from_append:
  "well_formed s \<Longrightarrow> Buffer_toString (Buffer_from s @ rest) = s @ Buffer_toString rest"
proof (induction s rule: Buffer_from.induct)
  case 1
  then show ?case by simp
next
  case (2 u)
  then show ?case by (simp add: toString_code_point scalar_unit utf16_of_unit)
next
  case (3 u v us)
  show ?case
  proof (cases "is_high_surrogate u \<and> is_low_surrogate v")
    case True
    with 3 have "well_formed us" by simp
    with 3 True have "Buffer_toString (Buffer_from us @ rest) = us @ Buffer_toString rest" by simp
    with True show ?thesis
      by (simp add: toString_code_point pair_code_point)
  next
    case False
    with 3 have wf: "\<not> is_high_surrogate u" "\<not> is_low_surrogate u" "well_formed (v # us)"
      by auto
    with 3 False have "Buffer_toString (Buffer_from (v # us) @ rest) = (v # us) @ Buffer_toString rest"
      by simp
    with False wf show ?thesis
      by (simp add: toString_code_point scalar_unit utf16_of_unit)
  qed
qed

lemma toString_from: "well_formed s \<Longrightarrow> Buffer_toString (Buffer_from s) = s"
  using toString_from_append[of s "[]"] by (simp add: Buffer_toString_def utf8_decode.simps)

section \<open>Reading back a 32-bit big-endian integer\<close>

lemma length_be32 [simp]: "length (be32 v) = 4"
  by (simp add: be32_def)

lemma writeUInt32BE_be32: "writeUInt32BE v = (if v < 2 ^ 32 then Inr (be32 v) else Inl RangeError)"
  by (simp add: writeUInt32BE_def be32_def)

lemma be32_value:
  fixes v :: nat
  assumes "v < 2 ^ 32"
  shows "v div 2 ^ 24 mod 256 * 2 ^ 24 + v div 2 ^ 16 mod 256 * 2 ^ 16 + v div 2 ^ 8 mod 256 * 2 ^ 8
           + v mod 256 = v"
proof -
  define q1 where "q1 = v div 256"
  define q2 where "q2 = q1 div 256"
  define q3 where "q3 = q2 div 256"
  have d8: "v div 2 ^ 8 = q1" by (simp add: q1_def)
  have d16: "v div 2 ^ 16 = q2" by (simp add: q2_def q1_def div_mult2_eq[symmetric])
  have d24: "v div 2 ^ 24 = q3" by (simp add: q3_def q2_def q1_def div_mult2_eq[symmetric])
  have "q3 < 256" unfolding d24[symmetric] using assms by (intro div_lt) simp
  then have m3: "q3 mod 256 = q3" by simp
  have e1: "q1 * 256 + v mod 256 = v" by (simp add: q1_def)
  have e2: "q2 * 256 + q1 mod 256 = q1" by (simp add: q2_def)
  have e3: "q3 * 256 + q2 mod 256 = q2" by (simp add: q3_def)
  have "q3 * 2 ^ 24 + q2 mod 256 * 2 ^ 16 + q1 mod 256 * 2 ^ 8 + v mod 256 =
        ((q3 * 256 + q2 mod 256) * 256 + q1 mod 256) * 256 + v mod 256"
    by simp
  also have "\<dots> = v" by (simp only: e3 e2 e1)
  finally show ?thesis by (simp only: d8 d16 d24 m3)
qed

lemma readUInt32BE_be32: "v < 2 ^ 32 \<Longrightarrow> readUInt32BE (be32 v @ rest) = Inr v"
  using be32_value[of v] by (simp add: be32_def unat_of_nat)

section \<open>The field loops of \<open>encode\<close> and \<open>decode\<close>\<close>

lemma length_field [simp]: "length (field p) = 8 + length p"
  by (simp add: field_def)

lemma decode_fields_end: "length buf \<le> offset \<Longrightarrow> decode_fields buf offset acc = Inr acc"
  by (subst decode_fields.simps) simp

lemma decode_fields_guard:
  "(if length buf > 0 then decode_fields buf 0 [] else Inr []) = decode_fields buf 0 []"
  by (simp add: decode_fields_end)

lemma decode_fields_step:
  assumes "length p \<le> 512"
  shows "decode_fields (pre @ field p @ post) (length pre) acc =
         decode_fields (pre @ field p @ post) (length pre + length (field p))
           (acc @ [Buffer_toString p])"
proof -
  let ?B = "pre @ field p @ post"
  have s1: "subarray ?B (length pre) (length pre + 4) = be32 CONTENT_TYPE"
    by (simp add: subarray_def field_def)
  have s2: "subarray ?B (length pre + 4) (length pre + 4 + 4) = be32 (length p)"
    by (simp add: subarray_def field_def)
  have s3: "subarray ?B (length pre + 4 + 4) (length pre + 4 + 4 + length p) = p"
    by (simp add: subarray_def field_def)
  have r1: "readUInt32BE (be32 CONTENT_TYPE) = Inr CONTENT_TYPE"
    using readUInt32BE_be32[of CONTENT_TYPE "[]"] by (simp add: CONTENT_TYPE_def)
  have r2: "readUInt32BE (be32 (length p)) = Inr (length p)"
    using readUInt32BE_be32[of "length p" "[]"] assms by simp
  have lt: "length pre < length ?B" by simp
  show ?thesis
    apply (subst decode_fields.simps)
    apply (simp only: lt if_True s1 s2 r1 r2 sum.case)
    using assms apply (simp only: s3 CONTROL_FIELD_CONTENT_TYPE_LENGTH_MAX_def)
    apply (simp add: add.assoc)
    done
qed

lemma decode_fields_all:
  "\<forall>p \<in> set ps. length p \<le> 512 \<Longrightarrow>
     decode_fields (pre @ concat (map field ps) @ post) (length pre) acc =
     decode_fields (pre @ concat (map field ps) @ post)
       (length pre + length (concat (map field ps))) (acc @ map Buffer_toString ps)"
proof (induction ps arbitrary: pre acc)
  case Nil
  then show ?case by simp
next
  case (Cons p ps)
  have "decode_fields (pre @ concat (map field (p # ps)) @ post) (length pre) acc =
        decode_fields (pre @ field p @ (concat (map field ps) @ post)) (length pre) acc"
    by simp
  also have "\<dots> = decode_fields (pre @ field p @ (concat (map field ps) @ post))
                     (length pre + length (field p)) (acc @ [Buffer_toString p])"
    using Cons.prems by (intro decode_fields_step) simp
  also have "\<dots> = decode_fields ((pre @ field p) @ concat (map field ps) @ post)
                     (length (pre @ field p)) (acc @ [Buffer_toString p])"
    by simp
  also have "\<dots> = decode_fields ((pre @ field p) @ concat (map field ps) @ post)
                     (length (pre @ field p) + length (concat (map field ps)))
                     ((acc @ [Buffer_toString p]) @ map Buffer_toString ps)"
    using Cons.prems by (intro Cons.IH) simp
  finally show ?case by (simp add: add.assoc)
qed

lemma decode_fields_whole:
  assumes "\<forall>p \<in> set ps. length p \<le> 512"
  shows "decode_fields (concat (map field ps)) 0 [] = Inr (map Buffer_toString ps)"
  using decode_fields_all[OF assms, of "[]" "[]" "[]"]
  by (simp add: decode_fields_end)

lemma encode_fields_eq:
  "\<forall>ct \<in> set cts. Buffer_byteLength ct < 2 ^ 32 \<Longrightarrow>
     encode_fields buffers cts =
       Inr (buffers @ concat (map (\<lambda>ct. [be32 CONTENT_TYPE, be32 (Buffer_byteLength ct),
                                            Buffer_from ct]) cts))"
  by (induction cts arbitrary: buffers)
     (simp_all add: writeUInt32BE_be32 CONTENT_TYPE_def)

lemma concat_fields:
  "concat (concat (map (\<lambda>ct. [be32 CONTENT_TYPE, be32 (Buffer_byteLength ct), Buffer_from ct]) cts))
     = concat (map (\<lambda>ct. field (Buffer_from ct)) cts)"
  by (induction cts) (simp_all add: field_def Buffer_byteLength_def)

lemma length_fields:
  "length (concat (map (\<lambda>ct. field (Buffer_from ct)) cts)) = fields_length cts"
  by (induction cts) (simp_all add: fields_length_def Buffer_byteLength_def)

lemma byteLength_le_fields_length: "ct \<in> set cts \<Longrightarrow> Buffer_byteLength ct \<le> fields_length cts"
  by (induction cts) (auto simp: fields_length_def)

lemma ControlFrameType_value_less: "ControlFrameType_value ty < 2 ^ 32"
  by (cases ty) simp_all

lemma Control_encode_eq:
  assumes "ty \<noteq> STOP" "ty \<noteq> FINISH" "\<forall>ct \<in> set cts. Buffer_byteLength ct < 2 ^ 32"
  shows "Control_encode ty (Some cts) =
           Inr (be32 (ControlFrameType_value ty) @ concat (map (\<lambda>ct. field (Buffer_from ct)) cts))"
  using assms ControlFrameType_value_less[of ty]
  by (simp add: Control_encode_def writeUInt32BE_be32 encode_fields_eq concat_fields)

lemma Control_decode_fields:
  assumes "n \<in> set ControlFrameType_values" "length (concat (map field ps)) \<le> 512"
  shows "Control_decode (be32 n @ concat (map field ps)) =
           Inr \<lparr>type = n, contentTypes = Some (map Buffer_toString ps)\<rparr>"
proof -
  have n: "n < 2 ^ 32" using assms(1) by (auto simp: ControlFrameType_values_def)
  have ps: "\<forall>p \<in> set ps. length p \<le> 512"
  proof
    fix p assume "p \<in> set ps"
    then have "length (field p) \<le> length (concat (map field ps))"
      by (induction ps) auto
    with assms(2) show "length p \<le> 512" by simp
  qed
  have hd: "subarray (be32 n @ concat (map field ps)) 0 4 = be32 n"
    by (simp add: subarray_def)
  have rd: "readUInt32BE (be32 n) = Inr n"
    using readUInt32BE_be32[OF n, of "[]"] by simp
  have pl: "subarray_from (be32 n @ concat (map field ps)) 4 = concat (map field ps)"
    by (simp add: subarray_from_def)
  have fields: "(if length (concat (map field ps)) > 0
                 then decode_fields (concat (map field ps)) 0 [] else Inr []) =
                Inr (map Buffer_toString ps)"
    using decode_fields_guard[of "concat (map field ps)"] decode_fields_whole[OF ps]
    by (rule trans)
  show ?thesis
    unfolding Control_decode_def pl fields hd rd
    using assms by (simp add: CONTROL_FRAME_LENGTH_MAX_def)
qed

section \<open>Round trip of control frames\<close>

lemma Buffer_from_ascii_Cons:
  "unat u < 0x80 \<Longrightarrow> Buffer_from (u # us) = of_nat (unat u) # Buffer_from us"
  by (cases us) (simp_all add: is_high_surrogate_def is_low_surrogate_def utf8_of_code_point_def)

lemma Buffer_from_replicate_a: "Buffer_from (replicate n 0x61) = replicate n 0x61"
  by (induction n) (simp_all add: Buffer_from_ascii_Cons)

lemma well_formed_ascii_Cons:
  "unat u < 0x80 \<Longrightarrow> well_formed (u # us) = well_formed us"
  by (cases us) (simp_all add: is_high_surrogate_def is_low_surrogate_def)

lemma well_formed_replicate_a: "well_formed (replicate n 0x61)"
  by (induction n) (simp_all add: well_formed_ascii_Cons)

lemma encode_fields_RangeError:
  "\<exists>ct \<in> set cts. \<not> Buffer_byteLength ct < 2 ^ 32 \<Longrightarrow>
     encode_fields buffers cts = Inl RangeError"
  by (induction cts arbitrary: buffers)
     (auto simp: writeUInt32BE_be32 CONTENT_TYPE_def)

lemma decode_encode_too_long:
  assumes "ty \<noteq> STOP" "ty \<noteq> FINISH" "CONTROL_FRAME_LENGTH_MAX < fields_length cts"
  shows "decode_encode ty (Some cts) =
           (if \<forall>ct \<in> set cts. Buffer_byteLength ct < 2 ^ 32
            then Inl (LengthExceeded (4 + fields_length cts)) else Inl RangeError)"
proof (cases "\<forall>ct \<in> set cts. Buffer_byteLength ct < 2 ^ 32")
  case True
  show ?thesis
    using assms True
    by (simp add: decode_encode_def Control_encode_eq[OF assms(1,2) True] Control_decode_def
          subarray_from_def length_fields)
next
  case False
  then have "encode_fields [be32 (ControlFrameType_value ty)] cts = Inl RangeError"
    by (intro encode_fields_RangeError) simp
  then show ?thesis
    using assms False ControlFrameType_value_less[of ty]
    by (simp add: decode_encode_def Control_encode_def writeUInt32BE_be32)
qed

lemma decode_encode_fits:
  assumes "ty \<noteq> STOP" "ty \<noteq> FINISH" "\<forall>ct \<in> set cts. well_formed ct"
    "fields_length cts \<le> CONTROL_FRAME_LENGTH_MAX"
  shows "decode_encode ty (Some cts) =
           Inr \<lparr>type = ControlFrameType_value ty, contentTypes = Some cts\<rparr>"
proof -
  have small: "\<forall>ct \<in> set cts. Buffer_byteLength ct < 2 ^ 32"
  proof
    fix ct assume "ct \<in> set cts"
    from byteLength_le_fields_length[OF this] assms(4)
    show "Buffer_byteLength ct < 2 ^ 32" by (simp add: CONTROL_FRAME_LENGTH_MAX_def)
  qed
  have mem: "ControlFrameType_value ty \<in> set ControlFrameType_values"
    by (cases ty) (simp_all add: ControlFrameType_values_def)
  have len: "length (concat (map field (map Buffer_from cts))) \<le> 512"
    using assms(4) length_fields[of cts] by (simp add: CONTROL_FRAME_LENGTH_MAX_def comp_def)
  have inverse: "map Buffer_toString (map Buffer_from cts) = cts"
    using assms(3) by (induction cts) (simp_all add: toString_from)
  have "Control_encode ty (Some cts) =
          Inr (be32 (ControlFrameType_value ty) @ concat (map field (map Buffer_from cts)))"
    using Control_encode_eq[OF assms(1,2) small] by (simp add: comp_def)
  then show ?thesis
    using Control_decode_fields[OF mem len] inverse by (simp add: decode_encode_def)
qed

text \<open>
  Claim C1, as stated, fails. A content type of 512 letters \<open>a\<close> has a UTF-8 encoding of
  exactly 512 bytes; its START frame is 524 bytes long, the payload after the type is 520
  bytes, and \<open>decode\<close> rejects it with the length-exceeded error. A string that is one
  unpaired surrogate is written as U+FFFD and comes back as U+FFFD.
\<close>

theorem decode_encode_roundtrip_fails:
  "decode_encode START (Some [replicate 512 0x61]) = Inl (LengthExceeded 524) \<and>
   Buffer_byteLength (replicate 512 0x61) = 512 \<and>
   decode_encode START (Some [[0xD800]]) =
     Inr \<lparr>type = ControlFrameType_value START, contentTypes = Some [[0xFFFD]]\<rparr> \<and>
   [0xFFFD] \<noteq> [0xD800 :: 16 word]"
proof -
  have "Control_encode START (Some [replicate 512 0x61]) =
          Inr (be32 2 @ field (replicate 512 0x61))"
    using Control_encode_eq[of START "[replicate 512 0x61]"]
    by (simp add: Buffer_byteLength_def Buffer_from_replicate_a)
  then have "decode_encode START (Some [replicate 512 0x61]) = Inl (LengthExceeded 524)"
    by (simp add: decode_encode_def Control_decode_def subarray_from_def
          CONTROL_FRAME_LENGTH_MAX_def)
  moreover have "Buffer_byteLength (replicate 512 0x61) = 512"
    by (simp add: Buffer_byteLength_def Buffer_from_replicate_a)
  moreover have "decode_encode START (Some [[0xD800]]) =
     Inr \<lparr>type = ControlFrameType_value START, contentTypes = Some [[0xFFFD]]\<rparr>"
    by (simp add: decode_encode_def codec_defs)
  ultimately show ?thesis by simp
qed

text \<open>
  Claim C1, amended. For every control-frame type other than STOP and FINISH and every
  array of content-type strings (empty strings and non-ASCII text included) that have no
  unpaired surrogate and whose fields, 8 header bytes plus the UTF-8 bytes of each string,
  total at most 512 bytes, decoding the encoding returns the same type and the same
  content types in the same order. When the fields total more than 512 bytes the round
  trip fails for every such type: \<open>decode\<close> throws the length-exceeded error (or
  \<open>encode\<close> already throws the range error, for a string of \<open>2 ^ 32\<close> bytes or more).
\<close>

theorem decode_encode_roundtrip:
  assumes "ty \<noteq> STOP" "ty \<noteq> FINISH"
  shows "((\<forall>ct \<in> set cts. well_formed ct) \<and> fields_length cts \<le> CONTROL_FRAME_LENGTH_MAX \<longrightarrow>
            decode_encode ty (Some cts) =
              Inr \<lparr>type = ControlFrameType_value ty, contentTypes = Some cts\<rparr>) \<and>
         (CONTROL_FRAME_LENGTH_MAX < fields_length cts \<longrightarrow>
            decode_encode ty (Some cts) =
              (if \<forall>ct \<in> set cts. Buffer_byteLength ct < 2 ^ 32
               then Inl (LengthExceeded (4 + fields_length cts)) else Inl RangeError))"
  using decode_encode_fits[OF assms, of cts] decode_encode_too_long[OF assms, of cts] by blast

theorem decode_encode_roundtrip_witness:
  "decode_encode READY (Some [js ''text/html; charset=UTF-8'', [0xE9, 0x20AC, 0xD83D, 0xDE00], []]) =
     Inr \<lparr>type = ControlFrameType_value READY,
          contentTypes = Some [js ''text/html; charset=UTF-8'', [0xE9, 0x20AC, 0xD83D, 0xDE00], []]\<rparr> \<and>
   decode_encode ACCEPT (Some [replicate 504 0x61]) =
     Inr \<lparr>type = ControlFrameType_value ACCEPT, contentTypes = Some [replicate 504 0x61]\<rparr> \<and>
   decode_encode START (Some [replicate 505 0x61]) = Inl (LengthExceeded 517)"
proof -
  have a: "fields_length [js ''text/html; charset=UTF-8'', [0xE9, 0x20AC, 0xD83D, 0xDE00], []]
             \<le> CONTROL_FRAME_LENGTH_MAX"
    by (simp add: fields_length_def codec_defs)
  have b: "\<forall>ct \<in> set [js ''text/html; charset=UTF-8'', [0xE9, 0x20AC, 0xD83D, 0xDE00], []].
             well_formed ct"
    by (simp add: js_def is_high_surrogate_def is_low_surrogate_def)
  have c: "fields_length [replicate 504 0x61] = 512" "fields_length [replicate 505 0x61] = 513"
    "Buffer_byteLength (replicate 505 0x61) = 505"
    by (simp_all add: fields_length_def Buffer_byteLength_def Buffer_from_replicate_a)
  show ?thesis
    using decode_encode_roundtrip
            [of READY "[js ''text/html; charset=UTF-8'', [0xE9, 0x20AC, 0xD83D, 0xDE00], []]"]
          decode_encode_roundtrip [of ACCEPT "[replicate 504 0x61]"]
          decode_encode_roundtrip [of START "[replicate 505 0x61]"]
          a b c well_formed_replicate_a[of 504]
    by (simp add: CONTROL_FRAME_LENGTH_MAX_def)
qed

section \<open>A field whose declared length exceeds the bytes that remain\<close>

lemma decode_fields_last_header:
  assumes "len < 2 ^ 32"
  shows "decode_fields (pre @ be32 CONTENT_TYPE @ be32 len @ rest) (length pre) acc =
           (if len > CONTROL_FIELD_CONTENT_TYPE_LENGTH_MAX then Inl (FieldTooLong len)
            else decode_fields (pre @ be32 CONTENT_TYPE @ be32 len @ rest)
                   (length pre + 4 + 4 + len)
                   (acc @ [Buffer_toString
                             (subarray (pre @ be32 CONTENT_TYPE @ be32 len @ rest)
                                (length pre + 4 + 4) (length pre + 4 + 4 + len))]))"
proof -
  let ?B = "pre @ be32 CONTENT_TYPE @ be32 len @ rest"
  have s1: "subarray ?B (length pre) (length pre + 4) = be32 CONTENT_TYPE"
    by (simp add: subarray_def)
  have s2: "subarray ?B (length pre + 4) (length pre + 4 + 4) = be32 len"
    by (simp add: subarray_def)
  have r1: "readUInt32BE (be32 CONTENT_TYPE) = Inr CONTENT_TYPE"
    using readUInt32BE_be32[of CONTENT_TYPE "[]"] by (simp add: CONTENT_TYPE_def)
  have r2: "readUInt32BE (be32 len) = Inr len"
    using readUInt32BE_be32[of len "[]"] assms by simp
  have lt: "length pre < length ?B" by simp
  show ?thesis
    apply (subst decode_fields.simps)
    apply (simp only: lt if_True s1 s2 r1 r2 sum.case)
    apply simp
    done
qed

lemma decode_fields_truncated:
  assumes "length rest < len" "len \<le> CONTROL_FIELD_CONTENT_TYPE_LENGTH_MAX"
  shows "decode_fields (pre @ be32 CONTENT_TYPE @ be32 len @ rest) (length pre) acc =
           Inr (acc @ [Buffer_toString rest])"
proof -
  have len: "len < 2 ^ 32"
    using assms(2) by (simp add: CONTROL_FIELD_CONTENT_TYPE_LENGTH_MAX_def)
  have s3: "subarray (pre @ be32 CONTENT_TYPE @ be32 len @ rest)
              (length pre + 4 + 4) (length pre + 4 + 4 + len) = rest"
    using assms(1) by (simp add: subarray_def)
  show ?thesis
    using assms s3 by (simp add: decode_fields_last_header[OF len] decode_fields_end)
qed

lemma Control_decode_last_field:
  assumes "n \<in> set ControlFrameType_values"
    and "length (concat (map field ps)) + 8 + length rest \<le> CONTROL_FRAME_LENGTH_MAX"
    and "len < 2 ^ 32"
  shows "Control_decode (be32 n @ concat (map field ps) @ be32 CONTENT_TYPE @ be32 len @ rest) =
           (case decode_fields (concat (map field ps) @ be32 CONTENT_TYPE @ be32 len @ rest)
                   (length (concat (map field ps))) (map Buffer_toString ps) of
              Inl e \<Rightarrow> Inl e
            | Inr cts \<Rightarrow> Inr \<lparr>type = n, contentTypes = Some cts\<rparr>)"
proof -
  let ?P = "concat (map field ps) @ be32 CONTENT_TYPE @ be32 len @ rest"
  have n: "n < 2 ^ 32" using assms(1) by (auto simp: ControlFrameType_values_def)
  have ps: "\<forall>p \<in> set ps. length p \<le> 512"
  proof
    fix p assume "p \<in> set ps"
    then have "length (field p) \<le> length (concat (map field ps))"
      by (induction ps) auto
    with assms(2) show "length p \<le> 512" by (simp add: CONTROL_FRAME_LENGTH_MAX_def)
  qed
  have hd: "subarray (be32 n @ ?P) 0 4 = be32 n"
    by (simp add: subarray_def)
  have rd: "readUInt32BE (be32 n) = Inr n"
    using readUInt32BE_be32[OF n, of "[]"] by simp
  have pl: "subarray_from (be32 n @ ?P) 4 = ?P"
    by (simp add: subarray_from_def)
  have all: "decode_fields ?P 0 [] =
          decode_fields ?P (length (concat (map field ps))) (map Buffer_toString ps)"
    using decode_fields_all[OF ps, of "[]" "be32 CONTENT_TYPE @ be32 len @ rest" "[]"] by simp
  have fields: "(if length ?P > 0 then decode_fields ?P 0 [] else Inr []) =
          decode_fields ?P (length (concat (map field ps))) (map Buffer_toString ps)"
    using decode_fields_guard[of ?P] all by (rule trans)
  show ?thesis
    unfolding Control_decode_def pl fields hd rd
    using assms(1,2) by simp
qed

text \<open>
  Claim C2, as stated, fails. In the buffer below the only field declares 5 bytes and 2
  remain: \<open>subarray\<close> clamps the view to the 2 bytes, and \<open>decode\<close> returns successfully
  with the shortened value \<open>"ab"\<close>.
\<close>

theorem decode_truncated_field_succeeds:
  "Control_decode ([0, 0, 0, 2] @ [0, 0, 0, 1] @ [0, 0, 0, 5] @ [0x61, 0x62]) =
     Inr \<lparr>type = ControlFrameType_value START, contentTypes = Some [js ''ab'']\<rparr>"
  by (simp add: codec_defs)

text \<open>
  Claim C2, amended. \<open>Control.decode\<close> has no truncation error. Take any buffer with a
  valid type and a payload of at most 512 bytes that consists of complete fields followed
  by one more content-type field whose declared length exceeds the number of bytes
  remaining after its header. If the declared length is greater than 512, \<open>decode\<close> fails
  with the field-too-long error. Otherwise it succeeds: the content types returned are the
  values of the complete fields, in order, followed by the text of the bytes that remain.
\<close>

theorem decode_truncated_field:
  assumes "n \<in> set ControlFrameType_values"
    and "length (concat (map field ps)) + 8 + length rest \<le> CONTROL_FRAME_LENGTH_MAX"
    and "length rest < len" and "len < 2 ^ 32"
  shows "Control_decode (be32 n @ concat (map field ps) @ be32 CONTENT_TYPE @ be32 len @ rest) =
           (if len > CONTROL_FIELD_CONTENT_TYPE_LENGTH_MAX then Inl (FieldTooLong len)
            else Inr \<lparr>type = n,
                      contentTypes = Some (map Buffer_toString ps @ [Buffer_toString rest])\<rparr>)"
proof (cases "len > CONTROL_FIELD_CONTENT_TYPE_LENGTH_MAX")
  case True
  then show ?thesis
    using decode_fields_last_header[OF assms(4), of "concat (map field ps)" rest]
    by (simp add: Control_decode_last_field[OF assms(1,2,4)])
next
  case False
  then have "len \<le> CONTROL_FIELD_CONTENT_TYPE_LENGTH_MAX" by simp
  from decode_fields_truncated[OF assms(3) this, of "concat (map field ps)"] False
  show ?thesis
    by (simp add: Control_decode_last_field[OF assms(1,2,4)])
qed

theorem decode_truncated_field_witness:
  "Control_decode (be32 2 @ concat (map field [[0x61]]) @ be32 CONTENT_TYPE @ be32 5 @ [0x61, 0x62]) =
     Inr \<lparr>type = 2, contentTypes = Some [js ''a'', js ''ab'']\<rparr> \<and>
   Control_decode (be32 2 @ concat (map field [[0x61]]) @ be32 CONTENT_TYPE @ be32 513 @ [0x61, 0x62]) =
     Inl (FieldTooLong 513)"
proof -
  have a: "Buffer_toString [0x61] = js ''a''" "Buffer_toString [0x61, 0x62] = js ''ab''"
    by (simp_all add: codec_defs)
  have b: "(2::nat) \<in> set ControlFrameType_values"
    by (simp add: ControlFrameType_values_def)
  have c: "length (concat (map field [[0x61]])) + 8 + length [0x61 :: byte, 0x62]
             \<le> CONTROL_FRAME_LENGTH_MAX"
    by (simp add: CONTROL_FRAME_LENGTH_MAX_def)
  show ?thesis
    using decode_truncated_field[OF b c, of 5] decode_truncated_field[OF b c, of 513] a
    by (simp add: CONTROL_FIELD_CONTENT_TYPE_LENGTH_MAX_def)
qed

section \<open>\<open>Writer.init\<close> and a framed response\<close>

lemmas socket_defs =
  sendControlFrame_def socket_write_def ESCAPE_SEQUENCE_def writeFrame_def Encoder_encode_def
  Control_encode_with_def Let_def

text \<open>
  Claim C8. \<open>Writer.init\<close> reads the first 4 bytes of the raw chunk as the control-frame
  type. For every chunk that is a framed control frame (the 4 zero bytes of the escape
  sequence, a 4-byte length, the payload), \<open>bufferToControlFrameType\<close> returns 0, which is
  the value of no control-frame type, ACCEPT included; so once READY has been sent,
  \<open>init\<close> throws 'Expected ACCEPT control frame, got 0', also for a correctly framed
  ACCEPT.
\<close>

theorem Writer_init_rejects_framed_response:
  "bufferToControlFrameType (ESCAPE_SEQUENCE @ lengthBuffer @ body) = Inr 0 \<and>
   ControlFrameType_value ty \<noteq> 0 \<and>
   (Writer_bidirectional this \<and>
    sendControlFrame sock READY (Writer_contentTypes this) = (Inr (), sock1) \<longrightarrow>
      Writer_init this sock (Inr (ESCAPE_SEQUENCE @ lengthBuffer @ body)) =
        (Inl (ExpectedAccept 0), sock1))"
proof -
  have "bufferToControlFrameType (ESCAPE_SEQUENCE @ lengthBuffer @ body) = Inr 0"
    by (simp add: bufferToControlFrameType_def ESCAPE_SEQUENCE_def)
  moreover have "ControlFrameType_value ty \<noteq> 0"
    by (cases ty) simp_all
  ultimately show ?thesis
    by (simp add: Writer_init_def)
qed

theorem Writer_init_rejects_framed_response_witness:
  "Writer_init \<lparr>Writer_bidirectional = True, Writer_contentTypes = None\<rparr>
     \<lparr>written = [], write_error = None\<rparr>
     (Inr (ESCAPE_SEQUENCE @ [0, 0, 0, 4] @ [0, 0, 0, 1])) =
     (Inl (ExpectedAccept 0),
      \<lparr>written = [[0, 0, 0, 0], [0, 0, 0, 4], [0, 0, 0, 4]], write_error = None\<rparr>) \<and>
   Control_encode ACCEPT None = Inr [0, 0, 0, 1]"
proof -
  have "sendControlFrame \<lparr>written = [], write_error = None\<rparr> READY None =
          (Inr (), \<lparr>written = [[0, 0, 0, 0], [0, 0, 0, 4], [0, 0, 0, 4]], write_error = None\<rparr>)"
    by (simp add: socket_defs writeUInt32BE_def)
  then show ?thesis
    using Writer_init_rejects_framed_response
            [of "[0, 0, 0, 4]" "[0, 0, 0, 1]" ACCEPT
                "\<lparr>Writer_bidirectional = True, Writer_contentTypes = None\<rparr>"
                "\<lparr>written = [], write_error = None\<rparr>"
                "\<lparr>written = [[0, 0, 0, 0], [0, 0, 0, 4], [0, 0, 0, 4]], write_error = None\<rparr>"]
    by (simp add: Control_encode_def writeUInt32BE_def)
qed

section \<open>The handshake of \<open>SocketWriter\<close>\<close>

lemma Control_decode_contentTypes:
  "Control_decode buf = Inr decoded \<Longrightarrow> \<exists>cts. contentTypes decoded = Some cts"
  by (auto simp: Control_decode_def split: if_splits sum.splits)

text \<open>
  Claim C9. \<open>Control.decode\<close> always returns a content-type array, possibly empty and
  never absent, so the negotiation guard of \<open>SocketWriter.handshake\<close> runs on every
  ACCEPT: once READY has been written and the response decodes as an ACCEPT, the handshake
  succeeds exactly when \<open>checkContentTypes\<close> holds and otherwise fails with 'Content types
  not supported'. It fails whenever the decoded content types share no string with the
  configured list, in particular when the ACCEPT carries no content-type field, and
  always when the configured list is unset.
\<close>

theorem handshake_negotiation_guard:
  assumes "Control_encode_with (SocketWriter_control this) READY = Inr ready"
    and "writeFrame sock ready = (Inr (), sock1)"
    and "Control_decode acceptFrame = Inr decoded"
    and "type decoded = ControlFrameType_value ACCEPT"
  shows "\<exists>cts. contentTypes decoded = Some cts \<and>
           handshake this sock (Inr acceptFrame) =
             (if checkContentTypes (SocketWriter_control this) cts then (Inr (), sock1)
              else (Inl ContentTypesNotSupported, sock1)) \<and>
           ((\<forall>cfg. Control_contentTypes (SocketWriter_control this) = Some cfg \<longrightarrow>
                   set cfg \<inter> set cts = {}) \<longrightarrow>
              handshake this sock (Inr acceptFrame) = (Inl ContentTypesNotSupported, sock1)) \<and>
           (cts = [] \<or> Control_contentTypes (SocketWriter_control this) = None \<longrightarrow>
              handshake this sock (Inr acceptFrame) = (Inl ContentTypesNotSupported, sock1))"
proof -
  from Control_decode_contentTypes[OF assms(3)]
  obtain cts where cts: "contentTypes decoded = Some cts" by blast
  have h: "handshake this sock (Inr acceptFrame) =
             (if checkContentTypes (SocketWriter_control this) cts then (Inr (), sock1)
              else (Inl ContentTypesNotSupported, sock1))"
    using assms cts by (simp add: handshake_def)
  have "(\<forall>cfg. Control_contentTypes (SocketWriter_control this) = Some cfg \<longrightarrow>
                   set cfg \<inter> set cts = {}) \<Longrightarrow>
        \<not> checkContentTypes (SocketWriter_control this) cts"
    by (auto simp: checkContentTypes_def list_ex_iff split: option.splits)
  moreover have "cts = [] \<or> Control_contentTypes (SocketWriter_control this) = None \<Longrightarrow>
        \<not> checkContentTypes (SocketWriter_control this) cts"
    by (auto simp: checkContentTypes_def list_ex_iff split: option.splits)
  ultimately show ?thesis using cts h by auto
qed


theorem handshake_negotiation_guard_witness:
  "handshake
     \<lparr>SocketWriter_timeout = None, SocketWriter_bidirectional = True,
      SocketWriter_contentTypes = None,
      SocketWriter_control = \<lparr>Control_contentTypes = None\<rparr>\<rparr>
     \<lparr>written = [], write_error = None\<rparr> (Inr [0, 0, 0, 1]) =
     (Inl ContentTypesNotSupported,
      \<lparr>written = [[0, 0, 0, 4, 0, 0, 0, 4]], write_error = None\<rparr>)"
proof -
  have a: "Control_encode_with \<lparr>Control_contentTypes = None\<rparr> READY = Inr [0, 0, 0, 4]"
    by (simp add: Control_encode_with_def Control_encode_def writeUInt32BE_def)
  have b: "writeFrame \<lparr>written = [], write_error = None\<rparr> [0, 0, 0, 4] =
             (Inr (), \<lparr>written = [[0, 0, 0, 4, 0, 0, 0, 4]], write_error = None\<rparr>)"
    by (simp add: socket_defs writeUInt32BE_def)
  have c: "Control_decode [0, 0, 0, 1] = Inr \<lparr>type = 1, contentTypes = Some []\<rparr>"
    by (simp add: codec_defs)
  show ?thesis
    using handshake_negotiation_guard
            [of "\<lparr>SocketWriter_timeout = None, SocketWriter_bidirectional = True,
                  SocketWriter_contentTypes = None,
                  SocketWriter_control = \<lparr>Control_contentTypes = None\<rparr>\<rparr>"
                "[0, 0, 0, 4]" "\<lparr>written = [], write_error = None\<rparr>"
                "\<lparr>written = [[0, 0, 0, 4, 0, 0, 0, 4]], write_error = None\<rparr>"
                "[0, 0, 0, 1]" "\<lparr>type = 1, contentTypes = Some []\<rparr>"]
          a b c
    by (simp add: checkContentTypes_def)
qed

text \<open>
  Claim C3 fails on \<open>SocketWriter.handshake\<close>. With the content type
  \<open>application/dns-tap\<close> configured and the peer answering READY with an ACCEPT that
  carries the same content type, the response decodes as an ACCEPT and the negotiation
  check passes; the handshake then returns, and the only chunk ever written to the socket
  is the READY frame: no START frame is sent. \<open>Writer.init\<close>, the other handshake of the
  repository, does send START once it has accepted the response.
\<close>

theorem handshake_sends_no_START:
  "Control_decode
     ([0, 0, 0, 1] @ [0, 0, 0, 1] @ [0, 0, 0, 0x13] @
      map (\<lambda>c. of_nat (of_char c)) ''application/dns-tap'') =
     Inr \<lparr>type = ControlFrameType_value ACCEPT,
          contentTypes = Some [js ''application/dns-tap'']\<rparr> \<and>
   checkContentTypes \<lparr>Control_contentTypes = Some [js ''application/dns-tap'']\<rparr>
     [js ''application/dns-tap''] \<and>
   handshake
     \<lparr>SocketWriter_timeout = None, SocketWriter_bidirectional = True,
      SocketWriter_contentTypes = Some [js ''application/dns-tap''],
      SocketWriter_control = \<lparr>Control_contentTypes = Some [js ''application/dns-tap'']\<rparr>\<rparr>
     \<lparr>written = [], write_error = None\<rparr>
     (Inr ([0, 0, 0, 1] @ [0, 0, 0, 1] @ [0, 0, 0, 0x13] @
           map (\<lambda>c. of_nat (of_char c)) ''application/dns-tap'')) =
     (Inr (),
      \<lparr>written =
         [[0, 0, 0, 0x1F] @ [0, 0, 0, 4] @ [0, 0, 0, 1] @ [0, 0, 0, 0x13] @
          map (\<lambda>c. of_nat (of_char c)) ''application/dns-tap''],
       write_error = None\<rparr>) \<and>
   Writer_init \<lparr>Writer_bidirectional = True, Writer_contentTypes = None\<rparr>
     \<lparr>written = [], write_error = None\<rparr> (Inr [0, 0, 0, 1]) =
     (Inr (),
      \<lparr>written = [[0, 0, 0, 0], [0, 0, 0, 4], [0, 0, 0, 4],
                  [0, 0, 0, 0], [0, 0, 0, 4], [0, 0, 0, 2]],
       write_error = None\<rparr>)"
  by (simp add: handshake_def Writer_init_def bufferToControlFrameType_def socket_defs
        checkContentTypes_def codec_defs)

lemma handshake_writes_at_most_READY:
  "handshake this sock recv_result = (res, sock1) \<Longrightarrow>
     written sock1 = written sock \<or>
     (\<exists>ready chunk. Control_encode_with (SocketWriter_control this) READY = Inr ready \<and>
        Encoder_encode ready = Inr chunk \<and> written sock1 = written sock @ [chunk])"
  by (auto simp: handshake_def writeFrame_def socket_write_def
           split: sum.splits option.splits prod.splits if_splits)

section \<open>Pending reads\<close>

lemmas recv_defs =
  Encoder_recv_def SocketWriter_recv_def no_pending_read_def socket_once_def socket_off_def
  setTimeout_def resolve_def reject_def cleanup_def Let_def

text \<open>
  Claim C4 fails on both \<open>recv\<close> functions. \<open>SocketWriter.recv(5000)\<close>, the read of
  \<open>SocketWriter.handshake\<close>, registers its timer without a delay, so the wait is not
  bounded by 5000 ms, and when the timer fires the promise is rejected while the
  \<open>data\<close> listener stays registered. \<open>Encoder.recv(socket, 5000)\<close>, the read of
  \<open>Writer.init\<close>, registers the timer with 5000 ms and removes its three listeners on
  every outcome, but when data, an error or a close settles the promise the timer stays
  pending; only when the timer itself fires is nothing left.
\<close>

theorem recv_leaves_callbacks:
  "SocketWriter_recv (Some 5000) =
     \<lparr>listeners = [(Ev_data, sw_onData)], timers = [(None, sw_onTimeout)], settled = Pending\<rparr> \<and>
   fire Timer_fires (SocketWriter_recv (Some 5000)) =
     \<lparr>listeners = [(Ev_data, sw_onData)], timers = [], settled = Rejected TimedOut\<rparr> \<and>
   fire (Data [0, 0, 0, 1]) (SocketWriter_recv (Some 5000)) =
     \<lparr>listeners = [], timers = [(None, sw_onTimeout)], settled = Resolved [0, 0, 0, 1]\<rparr> \<and>
   Encoder_recv (Some 5000) =
     \<lparr>listeners = [(Ev_data, onData), (Ev_error, onError), (Ev_close, onClose)],
      timers = [(Some 5000, onTimeout)], settled = Pending\<rparr> \<and>
   fire (Data [0, 0, 0, 1]) (Encoder_recv (Some 5000)) =
     \<lparr>listeners = [], timers = [(Some 5000, onTimeout)], settled = Resolved [0, 0, 0, 1]\<rparr> \<and>
   fire Close (Encoder_recv (Some 5000)) =
     \<lparr>listeners = [], timers = [(Some 5000, onTimeout)], settled = Rejected SocketClosed\<rparr> \<and>
   fire Timer_fires (Encoder_recv (Some 5000)) =
     \<lparr>listeners = [], timers = [], settled = Rejected TimedOut\<rparr>"
  by (simp add: recv_defs)

text \<open>
  What does hold: a settled promise stays as it is, and with a timer set, whatever happens
  first settles the promise of \<open>Encoder.recv\<close> and leaves none of its three socket
  listeners registered.
\<close>

lemma settles_once:
  "settled st \<noteq> Pending \<Longrightarrow>
     settled (resolve v st) = settled st \<and> settled (reject e st) = settled st"
  by (simp add: resolve_def reject_def)

lemma Encoder_recv_listeners_removed:
  "timeout \<noteq> None \<Longrightarrow> timeout \<noteq> Some 0 \<Longrightarrow>
     listeners (fire occ (Encoder_recv timeout)) = [] \<and>
     settled (fire occ (Encoder_recv timeout)) \<noteq> Pending"
  by (cases occ) (simp_all add: recv_defs)

end
